theory Spec2Isabelle
  imports Complex_Main "HOL-Library.Log_Nat"
begin

section \<open>Health-data intake service: \<^verbatim>\<open>backend/healthdata.py\<close>\<close>

text \<open>
  The module defines a pydantic model \<^verbatim>\<open>HealthDataRequest\<close> with three field validators,
  the authentication dependency \<^verbatim>\<open>get_current_user\<close> and the two route handlers
  \<^verbatim>\<open>log_health_data\<close> and \<^verbatim>\<open>get_health_data\<close>.

  Conventions of the embedding.
  \<^item> A Python \<^verbatim>\<open>str\<close> is a \<^typ>\<open>string\<close>, one \<^typ>\<open>char\<close> per code point, so the strings
    covered are those over the code points 0..255 (an HTTP header value is decoded as
    Latin-1 and is always of this kind). On these code points the class \<^verbatim>\<open>\d\<close> of a
    Python \<^verbatim>\<open>str\<close> pattern is exactly \<^verbatim>\<open>0-9\<close>.
  \<^item> Every \<^verbatim>\<open>raise\<close> is a value \<open>Inl e\<close> of the type \<open>error + 'a\<close>.
  \<^item> The database session is an explicit state, passed in and returned.
\<close>

subsection \<open>Exceptions\<close>

datatype error =
    ValueError string
  | OverflowError string
  | HTTPException nat string
  | ValidationError "(string \<times> string) list"

subsection \<open>Python string operations used by the module\<close>

definition is_digit :: "char \<Rightarrow> bool" where
  "is_digit c \<longleftrightarrow> 48 \<le> (of_char c :: nat) \<and> (of_char c :: nat) \<le> 57"

definition digit_value :: "char \<Rightarrow> nat" where
  "digit_value c = of_char c - 48"

text \<open>\<^verbatim>\<open>str.isspace\<close> on the code points 0..255: TAB, LF, VT, FF, CR, the separators
  0x1C..0x1F, SPACE, NEL (0x85) and NBSP (0xA0).\<close>

definition is_space :: "char \<Rightarrow> bool" where
  "is_space c \<longleftrightarrow> (let n = (of_char c :: nat) in
     (9 \<le> n \<and> n \<le> 13) \<or> (28 \<le> n \<and> n \<le> 32) \<or> n = 133 \<or> n = 160)"

abbreviation LF :: char where "LF \<equiv> CHR 0x0A"
abbreviation TAB :: char where "TAB \<equiv> CHR 0x09"

text \<open>\<^verbatim>\<open>s.replace(old, '')\<close> for a one-character \<^verbatim>\<open>old\<close>: every occurrence is deleted.\<close>

definition str_replace_empty :: "char \<Rightarrow> string \<Rightarrow> string" where
  "str_replace_empty old s = filter (\<lambda>c. c \<noteq> old) s"

text \<open>\<^verbatim>\<open>s.split(sep)\<close> for a one-character separator: the result is never empty, and
  adjacent separators delimit empty strings.\<close>

fun str_split :: "char \<Rightarrow> string \<Rightarrow> string list" where
  "str_split sep [] = [[]]"
| "str_split sep (c # cs) =
     (if c = sep then [] # str_split sep cs
      else (case str_split sep cs of
              [] \<Rightarrow> [[c]]
            | p # ps \<Rightarrow> (c # p) # ps))"

text \<open>\<^verbatim>\<open>s.split()\<close> without argument: the maximal runs of non-whitespace characters.
  The first argument is the word being read.\<close>

fun split_ws_from :: "string \<Rightarrow> string \<Rightarrow> string list" where
  "split_ws_from cur [] = (if cur = [] then [] else [cur])"
| "split_ws_from cur (c # cs) =
     (if is_space c
      then (if cur = [] then split_ws_from [] cs else cur # split_ws_from [] cs)
      else split_ws_from (cur @ [c]) cs)"

definition str_split_ws :: "string \<Rightarrow> string list" where
  "str_split_ws s = split_ws_from [] s"

text \<open>\<^verbatim>\<open>str.lower\<close> on the code points 0..255: \<^verbatim>\<open>A-Z\<close> and the Latin-1 capitals
  0xC0..0xDE (without the multiplication sign 0xD7) move up by 32.\<close>

definition char_lower :: "char \<Rightarrow> char" where
  "char_lower c = (let n = (of_char c :: nat) in
     if (65 \<le> n \<and> n \<le> 90) \<or> (192 \<le> n \<and> n \<le> 222 \<and> n \<noteq> 215)
     then char_of (n + 32) else c)"

definition str_lower :: "string \<Rightarrow> string" where
  "str_lower s = map char_lower s"

definition str_strip :: "string \<Rightarrow> string" where
  "str_strip s = rev (dropWhile is_space (rev (dropWhile is_space s)))"

subsection \<open>\<^verbatim>\<open>int(s)\<close> on a string\<close>

text \<open>The literal is stripped of surrounding whitespace, may carry one sign, and
  consists of decimal digits, where single underscores may stand between digits.
  Anything else raises \<^verbatim>\<open>ValueError\<close> (whose message, in Python, ends with the quoted
  literal; the model appends the literal as it is).\<close>

fun int_body_ok :: "string \<Rightarrow> bool" where
  "int_body_ok [] = False"
| "int_body_ok [c] = is_digit c"
| "int_body_ok (c # d # cs) =
     (is_digit c \<and> (if d = CHR ''_'' then int_body_ok cs else int_body_ok (d # cs)))"

definition digits_value :: "string \<Rightarrow> nat" where
  "digits_value ds = foldl (\<lambda>acc c. 10 * acc + digit_value c) 0 ds"

definition py_int :: "string \<Rightarrow> error + int" where
  "py_int s =
     (let t = str_strip s;
          (neg, body) = (case t of
                           [] \<Rightarrow> (False, [])
                         | c # r \<Rightarrow> if c = CHR ''-'' then (True, r)
                                    else if c = CHR ''+'' then (False, r)
                                    else (False, t))
      in if int_body_ok body
         then (let n = int (digits_value (str_replace_empty (CHR ''_'') body))
               in Inr (if neg then - n else n))
         else Inl (ValueError (''invalid literal for int() with base 10: '' @ s)))"

subsection \<open>Regular expressions\<close>

text \<open>The fragment of \<^verbatim>\<open>re\<close> that the module uses: character classes, concatenation and
  alternation. A bounded repetition \<^verbatim>\<open>r{2,3}\<close> is \<^verbatim>\<open>r r (r|)\<close>. The matcher works by
  derivatives; \<open>lang\<close> is the set of strings a pattern denotes.\<close>

datatype rx =
    Never
  | Empty
  | Class "char \<Rightarrow> bool"
  | Then rx rx
  | Either rx rx

fun lang :: "rx \<Rightarrow> string set" where
  "lang Never = {}"
| "lang Empty = {[]}"
| "lang (Class p) = {[c] | c. p c}"
| "lang (Then r s) = {x @ y | x y. x \<in> lang r \<and> y \<in> lang s}"
| "lang (Either r s) = lang r \<union> lang s"

fun nullable :: "rx \<Rightarrow> bool" where
  "nullable Never = False"
| "nullable Empty = True"
| "nullable (Class p) = False"
| "nullable (Then r s) = (nullable r \<and> nullable s)"
| "nullable (Either r s) = (nullable r \<or> nullable s)"

fun deriv :: "char \<Rightarrow> rx \<Rightarrow> rx" where
  "deriv c Never = Never"
| "deriv c Empty = Never"
| "deriv c (Class p) = (if p c then Empty else Never)"
| "deriv c (Then r s) =
     (if nullable r then Either (Then (deriv c r) s) (deriv c s) else Then (deriv c r) s)"
| "deriv c (Either r s) = Either (deriv c r) (deriv c s)"

fun fullmatch :: "rx \<Rightarrow> string \<Rightarrow> bool" where
  "fullmatch r [] = nullable r"
| "fullmatch r (c # cs) = fullmatch (deriv c r) cs"

text \<open>\<^verbatim>\<open>re.match('^' + r + '$', s)\<close> without flags: \<^verbatim>\<open>^\<close> holds at the start, and
  \<^verbatim>\<open>$\<close> holds at the end of the string and also just before a line feed that is the
  last character. So the whole of \<open>s\<close>, or \<open>s\<close> without its final line feed, matches
  \<open>r\<close>.\<close>

definition re_match_anchored :: "rx \<Rightarrow> string \<Rightarrow> bool" where
  "re_match_anchored r s = fullmatch (Then r (Either Empty (Class (\<lambda>c. c = LF)))) s"

definition rep_2_3 :: "rx \<Rightarrow> rx" where
  "rep_2_3 r = Then r (Then r (Either r Empty))"

text \<open>The pattern \<^verbatim>\<open>\d{2,3}/\d{2,3}\<close> between the anchors of the source.\<close>

definition bp_pattern :: rx where
  "bp_pattern = Then (rep_2_3 (Class is_digit))
                     (Then (Class (\<lambda>c. c = CHR ''/'')) (rep_2_3 (Class is_digit)))"

text \<open>Two or three decimal digits: the strings of \<^verbatim>\<open>\d{2,3}\<close>.\<close>

definition digits23 :: "string \<Rightarrow> bool" where
  "digits23 ds \<longleftrightarrow> (length ds = 2 \<or> length ds = 3) \<and> list_all is_digit ds"

subsection \<open>The blood-pressure validator\<close>

text \<open>\<^verbatim>\<open>systolic, diastolic = map(int, v.split('/'))\<close>: the iterator is consumed one
  element at a time, \<^verbatim>\<open>int\<close> is applied as each element is taken, and a third element
  is asked for before the unpacking succeeds.\<close>

fun unpack2_map_int :: "string list \<Rightarrow> error + (int \<times> int)" where
  "unpack2_map_int [] = Inl (ValueError ''not enough values to unpack (expected 2, got 0)'')"
| "unpack2_map_int [a] =
     (case py_int a of
        Inl e \<Rightarrow> Inl e
      | Inr x \<Rightarrow> Inl (ValueError ''not enough values to unpack (expected 2, got 1)''))"
| "unpack2_map_int (a # b # rest) =
     (case py_int a of
        Inl e \<Rightarrow> Inl e
      | Inr x \<Rightarrow>
         (case py_int b of
            Inl e \<Rightarrow> Inl e
          | Inr y \<Rightarrow>
             (case rest of
                [] \<Rightarrow> Inr (x, y)
              | c # _ \<Rightarrow>
                 (case py_int c of
                    Inl e \<Rightarrow> Inl e
                  | Inr z \<Rightarrow> Inl (ValueError ''too many values to unpack (expected 2)'')))))"

definition bp_format_msg :: string where
  "bp_format_msg =
     ''Blood pressure must be in format '' @ [CHR 0x22] @ ''systolic/diastolic'' @ [CHR 0x22]
       @ '' (e.g., 120/80)''"

definition validate_blood_pressure :: "string \<Rightarrow> error + string" where
  "validate_blood_pressure v0 =
     (let v = str_replace_empty (CHR '' '') v0 in
      if \<not> re_match_anchored bp_pattern v then Inl (ValueError bp_format_msg)
      else (case unpack2_map_int (str_split (CHR ''/'') v) of
              Inl e \<Rightarrow> Inl e
            | Inr (systolic, diastolic) \<Rightarrow>
                if systolic < 70 \<or> systolic > 250
                then Inl (ValueError ''Systolic pressure must be between 70 and 250'')
                else if diastolic < 40 \<or> diastolic > 150
                then Inl (ValueError ''Diastolic pressure must be between 40 and 150'')
                else Inr v))"

text \<open>The two range tests of the validator, on the integers read from a matching
  string.\<close>

definition bp_range_check :: "int \<Rightarrow> int \<Rightarrow> string \<Rightarrow> error + string" where
  "bp_range_check systolic diastolic v =
     (if systolic < 70 \<or> systolic > 250
      then Inl (ValueError ''Systolic pressure must be between 70 and 250'')
      else if diastolic < 40 \<or> diastolic > 150
      then Inl (ValueError ''Diastolic pressure must be between 40 and 150'')
      else Inr v)"


subsection \<open>Python floats\<close>

text \<open>A \<^verbatim>\<open>float\<close> is an IEEE 754 binary64 value: a finite one is given by its exact
  rational value, which is \<open>m * 2^e\<close> for a 53-bit \<open>m\<close> and \<open>-1074 \<le> e \<le> 971\<close>. The sign
  of zero is not represented: the validators reject both zeros, and they can only return
  the positive one.\<close>

datatype pyfloat = Finite rat | PosInf | NegInf | NaN

definition is_double :: "rat \<Rightarrow> bool" where
  "is_double q \<longleftrightarrow>
     (\<exists>m e. \<bar>m\<bar> < 2 ^ 53 \<and> - 1074 \<le> e \<and> e \<le> 971 \<and> q = of_int m * 2 powi e)"

text \<open>The largest finite binary64 value.\<close>

definition max_double :: rat where
  "max_double = (2 ^ 53 - 1) * 2 ^ 971"

fun float_ok :: "pyfloat \<Rightarrow> bool" where
  "float_ok (Finite q) = is_double q"
| "float_ok _ = True"

text \<open>\<^verbatim>\<open>x <= n\<close> and \<^verbatim>\<open>x > n\<close> for a float \<open>x\<close> and an int \<open>n\<close>: the comparison
  is exact, and every comparison with NaN is false.\<close>

fun float_le_int :: "pyfloat \<Rightarrow> int \<Rightarrow> bool" where
  "float_le_int (Finite q) n = (q \<le> of_int n)"
| "float_le_int NegInf n = True"
| "float_le_int PosInf n = False"
| "float_le_int NaN n = False"

fun float_gt_int :: "pyfloat \<Rightarrow> int \<Rightarrow> bool" where
  "float_gt_int (Finite q) n = (q > of_int n)"
| "float_gt_int PosInf n = True"
| "float_gt_int NegInf n = False"
| "float_gt_int NaN n = False"

definition round_half_even :: "rat \<Rightarrow> int" where
  "round_half_even x =
     (let f = \<lfloor>x\<rfloor>; d = x - of_int f
      in if d < 1 / 2 then f else if d > 1 / 2 then f + 1
         else if even f then f else f + 1)"

text \<open>For \<open>q > 0\<close>, the \<open>e\<close> with \<open>2^e \<le> q < 2^(e+1)\<close>, from the bit lengths of the
  numerator and the denominator.\<close>

definition float_exponent :: "rat \<Rightarrow> int" where
  "float_exponent q =
     (let (a, b) = quotient_of q; k = bitlen a - bitlen b
      in if 2 powi k \<le> q then k else k - 1)"

text \<open>The conversion of an exact value to binary64 (what \<^verbatim>\<open>strtod\<close> does with a
  decimal string): round to nearest, ties to even, on the grid of the value's binade,
  gradual underflow, overflow to infinity.\<close>

definition nearest_double :: "rat \<Rightarrow> pyfloat" where
  "nearest_double q =
     (if q = 0 then Finite 0
      else (let e = max (float_exponent \<bar>q\<bar> - 52) (- 1074);
                m = round_half_even (q / 2 powi e);
                r = of_int m * 2 powi e
            in if r \<ge> 2 ^ 1024 then PosInf
               else if r \<le> - (2 ^ 1024) then NegInf
               else Finite r))"

text \<open>\<^verbatim>\<open>round(x, ndigits)\<close> for a float and \<open>ndigits \<ge> 0\<close>: NaN and the infinities round
  to themselves; a finite value is written exactly with \<open>ndigits\<close> decimals, the exact
  binary value being rounded half to even, and that decimal is converted back to a
  float; \<^verbatim>\<open>OverflowError\<close> is raised if the conversion overflows.\<close>

definition decimal_round :: "rat \<Rightarrow> nat \<Rightarrow> rat" where
  "decimal_round q ndigits = of_int (round_half_even (q * 10 ^ ndigits)) / 10 ^ ndigits"

definition py_round :: "pyfloat \<Rightarrow> nat \<Rightarrow> error + pyfloat" where
  "py_round x ndigits =
     (case x of
        Finite q \<Rightarrow>
          (case nearest_double (decimal_round q ndigits) of
             Finite r \<Rightarrow> Inr (Finite r)
           | _ \<Rightarrow> Inl (OverflowError ''rounded value too large to represent''))
      | _ \<Rightarrow> Inr x)"

subsection \<open>The model \<^verbatim>\<open>HealthDataRequest\<close> and its field validators\<close>

definition validate_weight :: "pyfloat \<Rightarrow> error + pyfloat" where
  "validate_weight v =
     (if float_le_int v 0 then Inl (ValueError ''Weight must be a positive number'')
      else py_round v 2)"

definition validate_glucose :: "pyfloat \<Rightarrow> error + pyfloat" where
  "validate_glucose v =
     (if float_le_int v 0 then Inl (ValueError ''Glucose level must be a positive number'')
      else py_round v 2)"

record HealthDataRequest =
  weight :: pyfloat
  bp :: string
  glucose :: pyfloat

text \<open>Construction of the model from a body whose fields already have their declared
  types. pydantic runs the validators in the order of the fields, turns each
  \<^verbatim>\<open>ValueError\<close> into one entry (field name and message) of a single
  \<^verbatim>\<open>ValidationError\<close> raised after all fields were tried, and lets any other exception
  through at once.\<close>

fun field_errors :: "string \<Rightarrow> error + 'a \<Rightarrow> (string \<times> string) list" where
  "field_errors name (Inl (ValueError msg)) = [(name, msg)]"
| "field_errors name _ = []"

fun escaping :: "error + 'a \<Rightarrow> error option" where
  "escaping (Inr _) = None"
| "escaping (Inl (ValueError _)) = None"
| "escaping (Inl e) = Some e"

definition HealthDataRequest_validate ::
  "pyfloat \<Rightarrow> string \<Rightarrow> pyfloat \<Rightarrow> error + HealthDataRequest" where
  "HealthDataRequest_validate w b g =
     (let rw = validate_weight w in
      case escaping rw of Some e \<Rightarrow> Inl e | None \<Rightarrow>
     (let rb = validate_blood_pressure b in
      case escaping rb of Some e \<Rightarrow> Inl e | None \<Rightarrow>
     (let rg = validate_glucose g in
      case escaping rg of Some e \<Rightarrow> Inl e | None \<Rightarrow>
     (case (rw, rb, rg) of
        (Inr w', Inr b', Inr g') \<Rightarrow> Inr \<lparr>weight = w', bp = b', glucose = g'\<rparr>
      | _ \<Rightarrow> Inl (ValidationError
                  (field_errors ''weight'' rw @ field_errors ''bp'' rb
                     @ field_errors ''glucose'' rg))))))"

subsection \<open>The database\<close>

text \<open>Modelled from the spec: the ORM classes \<^verbatim>\<open>User\<close> and \<^verbatim>\<open>HealthData\<close> of
  \<^verbatim>\<open>models.py\<close> and the session of \<^verbatim>\<open>database.py\<close> are not part of the source given.
  A user is a row with an integer id (and whatever other columns the table has, the
  extension of the record); a health record has the columns that the handlers and
  \<^verbatim>\<open>HealthDataResponse\<close> read and write. A table is the list of its rows in storage
  order. The id and the timestamp of a new row are assigned by the database on commit: they
  are parameters of the insertion.\<close>

type_synonym datetime = int

record User =
  user_id :: int

record HealthData =
  hd_id :: int
  hd_patient_id :: int
  hd_weight :: pyfloat
  hd_bp :: string
  hd_glucose :: pyfloat
  hd_timestamp :: datetime

record 'u db =
  users :: "'u User_scheme list"
  health_data :: "HealthData list"

text \<open>\<^verbatim>\<open>db.query(User).filter(User.id == user_id).first()\<close>: the first row with that id; a
  comparison with \<^verbatim>\<open>None\<close> (SQL \<^verbatim>\<open>NULL\<close>) selects nothing.\<close>

definition query_user_first :: "'u db \<Rightarrow> int option \<Rightarrow> 'u User_scheme option" where
  "query_user_first d uid =
     (case uid of None \<Rightarrow> None | Some i \<Rightarrow> find (\<lambda>u. user_id u = i) (users d))"

text \<open>\<^verbatim>\<open>db.add(e); db.commit(); db.refresh(e)\<close>: the row is appended with the id and the
  timestamp the database assigned, and the refreshed row is handed back.\<close>

definition add_commit_refresh ::
  "int \<Rightarrow> datetime \<Rightarrow> HealthData \<Rightarrow> 'u db \<Rightarrow> 'u db \<times> HealthData" where
  "add_commit_refresh new_id now e d =
     (let e' = e\<lparr>hd_id := new_id, hd_timestamp := now\<rparr>
      in (d\<lparr>health_data := health_data d @ [e']\<rparr>, e'))"

subsection \<open>Authentication\<close>

text \<open>The decoded token is a dict of claims, here an association list; \<^verbatim>\<open>utils.py\<close>
  is not part of the source given, so \<^verbatim>\<open>decode_access_token\<close> is a parameter. It
  returns \<^verbatim>\<open>None\<close> or a dict; the handler tests the result with \<^verbatim>\<open>not\<close>, which is true
  of \<^verbatim>\<open>None\<close> and of the empty dict.\<close>

type_synonym payload = "(string \<times> int) list"

definition falsy :: "payload option \<Rightarrow> bool" where
  "falsy p \<longleftrightarrow> p = None \<or> p = Some []"

definition get_current_user ::
  "(string \<Rightarrow> payload option) \<Rightarrow> string option \<Rightarrow> 'u db \<Rightarrow> error + 'u User_scheme" where
  "get_current_user decode_access_token authorization d =
     (case authorization of
        None \<Rightarrow> Inl (HTTPException 401 ''Token missing'')
      | Some h \<Rightarrow>
          if h = [] then Inl (HTTPException 401 ''Token missing'')
          else (case str_split_ws h of
                  [scheme, token] \<Rightarrow>
                    if str_lower scheme \<noteq> ''bearer''
                    then Inl (HTTPException 401 ''Invalid authorization header'')
                    else (case decode_access_token token of
                            None \<Rightarrow> Inl (HTTPException 401 ''Invalid or expired token'')
                          | Some p \<Rightarrow>
                              if p = [] then Inl (HTTPException 401 ''Invalid or expired token'')
                              else (case query_user_first d (map_of p ''sub'') of
                                      None \<Rightarrow> Inl (HTTPException 401 ''User not found'')
                                    | Some user \<Rightarrow> Inr user))
                | _ \<Rightarrow> Inl (HTTPException 401 ''Invalid authorization header'')))"

subsection \<open>The handlers\<close>

record log_response =
  message :: string
  data_id :: int

definition log_health_data ::
  "int \<Rightarrow> datetime \<Rightarrow> HealthDataRequest \<Rightarrow> 'u db \<Rightarrow> 'u User_scheme \<Rightarrow> 'u db \<times> log_response" where
  "log_health_data new_id now data d current_user =
     (let new_entry = \<lparr>hd_id = 0, hd_patient_id = user_id current_user,
                        hd_weight = weight data, hd_bp = bp data,
                        hd_glucose = glucose data, hd_timestamp = 0\<rparr>;
          (d', new_entry') = add_commit_refresh new_id now new_entry d
      in (d', \<lparr>message = ''Health data recorded'', data_id = hd_id new_entry'\<rparr>))"

definition get_health_data :: "'u db \<Rightarrow> 'u User_scheme \<Rightarrow> 'u db \<times> HealthData list" where
  "get_health_data d current_user =
     (let entries = filter (\<lambda>e. hd_patient_id e = user_id current_user) (health_data d)
      in (d, entries))"

subsection \<open>The routes\<close>

text \<open>What FastAPI does around a handler: the dependency \<^verbatim>\<open>get_current_user\<close> is
  resolved first and its \<^verbatim>\<open>HTTPException\<close> ends the request; then the body is validated;
  then the handler runs.\<close>

definition post_healthdata ::
  "(string \<Rightarrow> payload option) \<Rightarrow> int \<Rightarrow> datetime \<Rightarrow> string option
     \<Rightarrow> pyfloat \<times> string \<times> pyfloat \<Rightarrow> 'u db \<Rightarrow> 'u db \<times> (error + log_response)" where
  "post_healthdata decode_access_token new_id now authorization body d =
     (case get_current_user decode_access_token authorization d of
        Inl e \<Rightarrow> (d, Inl e)
      | Inr current_user \<Rightarrow>
          (case body of (w, b, g) \<Rightarrow>
             (case HealthDataRequest_validate w b g of
                Inl e \<Rightarrow> (d, Inl e)
              | Inr data \<Rightarrow>
                  (let (d', r) = log_health_data new_id now data d current_user
                   in (d', Inr r)))))"

definition get_healthdata ::
  "(string \<Rightarrow> payload option) \<Rightarrow> string option \<Rightarrow> 'u db \<Rightarrow> 'u db \<times> (error + HealthData list)" where
  "get_healthdata decode_access_token authorization d =
     (case get_current_user decode_access_token authorization d of
        Inl e \<Rightarrow> (d, Inl e)
      | Inr current_user \<Rightarrow>
          (let (d', entries) = get_health_data d current_user in (d', Inr entries)))"

subsection \<open>A small instance\<close>

text \<open>Two users, three stored records, and a token decoder that knows three tokens: one
  for each user and one whose subject is not a user.\<close>

definition demo_record :: "int \<Rightarrow> int \<Rightarrow> string \<Rightarrow> HealthData" where
  "demo_record i p b =
     \<lparr>hd_id = i, hd_patient_id = p, hd_weight = Finite 70, hd_bp = b,
      hd_glucose = Finite 5, hd_timestamp = 1000 + i\<rparr>"

definition demo_db :: "unit db" where
  "demo_db =
     \<lparr>users = [\<lparr>user_id = 1\<rparr>, \<lparr>user_id = 2\<rparr>],
      health_data = [demo_record 1 1 ''120/80'', demo_record 2 2 ''110/70'',
                     demo_record 3 1 ''125/85'']\<rparr>"

definition demo_decode :: "string \<Rightarrow> payload option" where
  "demo_decode t =
     (if t = ''t1'' then Some [(''sub'', 1), (''exp'', 2000)]
      else if t = ''t2'' then Some [(''sub'', 2), (''exp'', 2000)]
      else if t = ''t9'' then Some [(''sub'', 9), (''exp'', 2000)]
      else None)"

definition demo_request :: HealthDataRequest where
  "demo_request = \<lparr>weight = Finite 70, bp = ''120/80'', glucose = Finite 5\<rparr>"


section \<open>Properties\<close>

subsection \<open>The matcher and the pattern\<close>

lemma nullable_lang: "nullable r \<longleftrightarrow> [] \<in> lang r"
  by (induction r) auto

lemma lang_Then_Cons:
  "c # s \<in> lang (Then r1 r2) \<longleftrightarrow>
     (\<exists>x y. s = x @ y \<and> c # x \<in> lang r1 \<and> y \<in> lang r2) \<or> ([] \<in> lang r1 \<and> c # s \<in> lang r2)"
  by (auto simp: Cons_eq_append_conv)

lemma deriv_lang: "s \<in> lang (deriv c r) \<longleftrightarrow> c # s \<in> lang r"
proof (induction r arbitrary: s)
  case (Then r1 r2)
  show ?case
    unfolding lang_Then_Cons by (auto simp: nullable_lang Then)
qed auto

lemma fullmatch_lang: "fullmatch r s \<longleftrightarrow> s \<in> lang r"
  by (induction s arbitrary: r) (auto simp: nullable_lang deriv_lang)

lemma lang_ThenI: "x \<in> lang r \<Longrightarrow> y \<in> lang s \<Longrightarrow> x @ y \<in> lang (Then r s)"
  by auto

lemma lang_rep_2_3: "lang (rep_2_3 (Class p)) = {ds. (length ds = 2 \<or> length ds = 3) \<and> list_all p ds}"
proof (intro set_eqI iffI)
  fix ds assume "ds \<in> lang (rep_2_3 (Class p))"
  then show "ds \<in> {ds. (length ds = 2 \<or> length ds = 3) \<and> list_all p ds}"
    by (auto simp: rep_2_3_def)
next
  fix ds assume "ds \<in> {ds. (length ds = 2 \<or> length ds = 3) \<and> list_all p ds}"
  then have l: "length ds = 2 \<or> length ds = 3" and p: "list_all p ds" by auto
  from l show "ds \<in> lang (rep_2_3 (Class p))"
  proof
    assume "length ds = 2"
    then obtain a b where "ds = [a, b]"
      by (metis (no_types, opaque_lifting) One_nat_def Suc_1 length_0_conv length_Suc_conv)
    with p have "[a] @ [b] @ [] \<in> lang (rep_2_3 (Class p))"
      unfolding rep_2_3_def by (intro lang_ThenI) auto
    with \<open>ds = [a, b]\<close> show ?thesis by simp
  next
    assume "length ds = 3"
    then obtain a b c where "ds = [a, b, c]"
      by (metis (no_types, opaque_lifting) length_0_conv length_Suc_conv numeral_3_eq_3)
    with p have "[a] @ [b] @ [c] \<in> lang (rep_2_3 (Class p))"
      unfolding rep_2_3_def by (intro lang_ThenI) auto
    with \<open>ds = [a, b, c]\<close> show ?thesis by simp
  qed
qed

lemma lang_bp_pattern:
  "lang bp_pattern = {a @ CHR ''/'' # b | a b. digits23 a \<and> digits23 b}"
  unfolding bp_pattern_def by (auto simp: lang_rep_2_3 digits23_def)

lemma re_match_anchored_iff:
  "re_match_anchored r s \<longleftrightarrow> s \<in> lang r \<or> (\<exists>w. s = w @ [LF] \<and> w \<in> lang r)"
  unfolding re_match_anchored_def fullmatch_lang by auto


lemma str_split_not_Nil: "str_split sep s \<noteq> []"
  by (induction s) (auto split: list.splits)

lemma str_split_no_sep: "sep \<notin> set s \<Longrightarrow> str_split sep s = [s]"
  by (induction s) auto

lemma str_split_append: "sep \<notin> set a \<Longrightarrow> str_split sep (a @ sep # b) = a # str_split sep b"
  by (induction a) (auto split: list.splits)

lemma is_digit_not_special:
  assumes "is_digit c"
  shows "\<not> is_space c" "c \<noteq> CHR ''_''" "c \<noteq> CHR ''-''" "c \<noteq> CHR ''+''" "c \<noteq> CHR ''/''"
    "c \<noteq> LF" "c \<noteq> CHR '' ''" "c \<noteq> TAB"
  using assms by (auto simp: is_digit_def is_space_def)

lemma int_body_ok_digits: "list_all is_digit ds \<Longrightarrow> ds \<noteq> [] \<Longrightarrow> int_body_ok ds"
  by (induction ds rule: int_body_ok.induct) (auto simp: is_digit_not_special)

lemma dropWhile_space_digits: "list_all is_digit ds \<Longrightarrow> dropWhile is_space ds = ds"
  by (cases ds) (auto simp: is_digit_not_special)

lemma str_strip_digits:
  assumes "list_all is_digit ds"
  shows "str_strip ds = ds" "str_strip (ds @ [LF]) = ds"
proof -
  have r: "list_all is_digit (rev ds)" using assms by (simp add: list_all_iff)
  have lf: "is_space LF" by (simp add: is_space_def)
  show "str_strip ds = ds"
    by (simp add: str_strip_def dropWhile_space_digits assms r)
  show "str_strip (ds @ [LF]) = ds"
  proof (cases ds)
    case Nil
    then show ?thesis by (simp add: str_strip_def lf)
  next
    case (Cons c cs)
    then have "dropWhile is_space (ds @ [LF]) = ds @ [LF]"
      using assms by (auto simp: is_digit_not_special)
    moreover have "dropWhile is_space (rev ds) = rev ds"
      using r by (rule dropWhile_space_digits)
    ultimately show ?thesis
      by (simp add: str_strip_def lf)
  qed
qed

lemma str_replace_empty_digits:
  "list_all is_digit ds \<Longrightarrow> str_replace_empty (CHR ''_'') ds = ds"
  unfolding str_replace_empty_def by (induction ds) (auto simp: is_digit_not_special)

lemma py_int_body:
  assumes "str_strip s = ds" "list_all is_digit ds" "ds \<noteq> []"
  shows "py_int s = Inr (int (digits_value ds))"
proof -
  obtain c r where ds: "ds = c # r" using assms(3) by (cases ds) auto
  with assms(2) have c: "c \<noteq> CHR ''-''" "c \<noteq> CHR ''+''" by (auto simp: is_digit_not_special)
  have split: "(case ds of [] \<Rightarrow> (False, [])
                | c # r \<Rightarrow> if c = CHR ''-'' then (True, r)
                           else if c = CHR ''+'' then (False, r) else (False, ds)) = (False, ds)"
    using c by (simp add: ds)
  have ok: "int_body_ok ds" using assms(2,3) by (rule int_body_ok_digits)
  show ?thesis
    unfolding py_int_def assms(1) Let_def split
    by (simp add: ok str_replace_empty_digits assms(2))
qed

lemma py_int_digits:
  assumes "list_all is_digit ds" "ds \<noteq> []"
  shows "py_int ds = Inr (int (digits_value ds))"
    and "py_int (ds @ [LF]) = Inr (int (digits_value ds))"
  using assms by (simp_all add: py_int_body str_strip_digits)

subsection \<open>Rounding\<close>

lemma round_half_even_cases:
  "round_half_even x = \<lfloor>x\<rfloor> \<or> (round_half_even x = \<lfloor>x\<rfloor> + 1 \<and> 1 / 2 \<le> x - of_int \<lfloor>x\<rfloor>)"
  by (auto simp: round_half_even_def Let_def)

lemma round_half_even_of_int [simp]: "round_half_even (of_int n) = n"
  by (simp add: round_half_even_def)

lemma round_half_even_le: "x \<le> of_int N \<Longrightarrow> round_half_even x \<le> N"
  using round_half_even_cases[of x] by (auto simp: le_floor_iff) linarith+

lemma round_half_even_nonneg: "0 \<le> x \<Longrightarrow> 0 \<le> round_half_even x"
  using round_half_even_cases[of x] by (auto simp: le_floor_iff)

lemma round_half_even_error: "\<bar>of_int (round_half_even x) - x\<bar> \<le> 1 / 2"
proof -
  have "of_int \<lfloor>x\<rfloor> \<le> x" "x < of_int \<lfloor>x\<rfloor> + 1"
    by linarith+
  then show ?thesis
    unfolding round_half_even_def Let_def by (auto split: if_splits)
qed


lemma float_exponent_le:
  assumes "0 < q"
  shows "2 powi (float_exponent q) \<le> q"
proof -
  obtain a b where ab: "quotient_of q = (a, b)" by (cases "quotient_of q")
  then have b: "0 < b" and q: "q = of_int a / of_int b"
    by (auto dest: quotient_of_denom_pos quotient_of_div)
  with assms have a: "0 < a" by (simp add: zero_less_divide_iff)
  define k where "k = bitlen a - bitlen b"
  have la: "1 \<le> bitlen a" and lb: "1 \<le> bitlen b"
    using a b by (simp_all add: bitlen_alt_def)
  have "(2::rat) powi (k - 1) * of_int b \<le> 2 powi (k - 1) * 2 powi (bitlen b)"
  proof (rule mult_left_mono)
    have "b < 2 ^ nat (bitlen b)" using bitlen_bounds[OF b] by simp
    then have "(of_int b :: rat) \<le> of_int (2 ^ nat (bitlen b))" by (simp only: of_int_le_iff)
    also have "\<dots> = 2 powi (bitlen b)" using lb by (simp add: power_int_def)
    finally show "(of_int b :: rat) \<le> 2 powi (bitlen b)" .
  qed simp
  also have "\<dots> = 2 powi (bitlen a - 1)"
    by (simp add: k_def power_int_add[symmetric])
  also have "\<dots> = of_int (2 ^ nat (bitlen a - 1))" using la by (simp add: power_int_def)
  also have "\<dots> \<le> of_int a"
    using bitlen_bounds[OF a] by (simp only: of_int_le_iff)
  finally have "(2::rat) powi (k - 1) \<le> q"
    using b by (simp add: q pos_le_divide_eq)
  then show ?thesis
    unfolding float_exponent_def ab k_def[symmetric] by (simp add: k_def[symmetric] Let_def)
qed


lemma max_double_less: "max_double < 2 ^ 1024"
  by (simp add: max_double_def)

lemma max_double_grid:
  assumes "e \<le> 971"
  shows "max_double = of_int ((2 ^ 53 - 1) * 2 ^ nat (971 - e)) * 2 powi e"
proof -
  have "(2::rat) ^ nat (971 - e) = 2 powi (971 - e)"
    using assms by (simp add: power_int_def)
  then have "of_int ((2 ^ 53 - 1) * 2 ^ nat (971 - e)) * 2 powi e
      = (2 ^ 53 - 1) * (2 powi (971 - e) * 2 powi e :: rat)"
    by simp
  also have "(2 powi (971 - e) * 2 powi e :: rat) = 2 powi 971"
    by (simp add: power_int_add[symmetric])
  also have "(2::rat) powi 971 = 2 ^ 971" by (simp add: power_int_def)
  finally show ?thesis by (simp add: max_double_def)
qed

lemma nearest_double_bounded:
  assumes "0 < x" "x \<le> max_double"
  shows "\<exists>r. nearest_double x = Finite r \<and> 0 \<le> r \<and> r \<le> max_double"
proof -
  define e where "e = max (float_exponent \<bar>x\<bar> - 52) (- 1074)"
  define m where "m = round_half_even (x / 2 powi e)"
  define r :: rat where "r = of_int m * 2 powi e"
  have pos: "(0::rat) < 2 powi e" by simp
  have "float_exponent x < 1024"
  proof (rule ccontr)
    assume "\<not> float_exponent x < 1024"
    then have "(2::rat) powi 1024 \<le> 2 powi (float_exponent x)"
      by (intro power_int_increasing) auto
    also have "\<dots> \<le> x" using assms(1) by (rule float_exponent_le)
    finally show False using assms(2) max_double_less by (simp add: power_int_def)
  qed
  then have e: "e \<le> 971" using assms(1) by (simp add: e_def)
  define N :: int where "N = (2 ^ 53 - 1) * 2 ^ nat (971 - e)"
  have grid: "max_double = of_int N * 2 powi e" unfolding N_def using e by (rule max_double_grid)
  have "x / 2 powi e \<le> of_int N"
    using assms(2) pos by (simp add: grid pos_divide_le_eq)
  then have mN: "m \<le> N" unfolding m_def by (rule round_half_even_le)
  have m0: "0 \<le> m" unfolding m_def using assms(1) by (intro round_half_even_nonneg) simp
  have r0: "0 \<le> r" using m0 by (simp add: r_def)
  have "r \<le> of_int N * 2 powi e"
    unfolding r_def using mN by (intro mult_right_mono) auto
  then have rM: "r \<le> max_double" by (simp add: grid)
  then have "r < 2 ^ 1024" using max_double_less by linarith
  moreover have "- (2 ^ 1024) < r" using r0 by (rule order.strict_trans2[rotated]) simp
  ultimately have "nearest_double x = Finite r"
    using assms(1) unfolding nearest_double_def e_def[symmetric] Let_def m_def[symmetric] r_def[symmetric]
    by simp
  with r0 rM show ?thesis by blast
qed

lemma is_double_le_max:
  assumes "is_double q"
  shows "q \<le> max_double"
proof -
  from assms obtain m e where me: "\<bar>m\<bar> < 2 ^ 53" "e \<le> 971" "q = of_int m * 2 powi e"
    unfolding is_double_def by blast
  show ?thesis
  proof (cases "m \<le> 0")
    case True
    then have "q \<le> 0" by (simp add: me(3) mult_le_0_iff)
    also have "0 \<le> max_double" by (simp add: max_double_def)
    finally show ?thesis .
  next
    case False
    have "m \<le> 2 ^ 53 - 1" using me(1) by simp
    then have "(of_int m :: rat) \<le> of_int (2 ^ 53 - 1)" by (simp only: of_int_le_iff)
    then have m: "(of_int m :: rat) \<le> 2 ^ 53 - 1" by simp
    have "(2::rat) powi e \<le> 2 powi 971" using me(2) by (intro power_int_increasing) auto
    then have p: "(2::rat) powi e \<le> 2 ^ 971" by (simp add: power_int_def)
    have "q \<le> (2 ^ 53 - 1) * 2 ^ 971"
      unfolding me(3) using m p by (intro mult_mono) auto
    then show ?thesis by (simp add: max_double_def)
  qed
qed


lemma decimal_round_error: "\<bar>decimal_round q n - q\<bar> \<le> 1 / (2 * 10 ^ n)"
proof -
  define p :: rat where "p = 10 ^ n"
  define k where "k = round_half_even (q * p)"
  have p: "0 < p" by (simp add: p_def)
  have "decimal_round q n - q = (of_int k - q * p) / p"
    using p by (simp add: decimal_round_def p_def[symmetric] k_def diff_divide_distrib)
  then have "\<bar>decimal_round q n - q\<bar> = \<bar>of_int k - q * p\<bar> / p"
    using p by (simp only: abs_divide)
  also have "\<dots> \<le> (1 / 2) / p"
    unfolding k_def using p by (intro divide_right_mono round_half_even_error) simp
  finally show ?thesis by (simp add: p_def)
qed

lemma decimal_round_nonneg: "0 \<le> q \<Longrightarrow> 0 \<le> decimal_round q n"
  by (simp add: decimal_round_def round_half_even_nonneg)

lemma decimal_round_of_int: "decimal_round (of_int i) n = of_int i"
proof -
  have "(of_int i :: rat) * 10 ^ n = of_int (i * 10 ^ n)" by simp
  then show ?thesis unfolding decimal_round_def by (simp only: round_half_even_of_int) simp
qed

lemma decimal_round_le_max:
  assumes "is_double q"
  shows "decimal_round q n \<le> max_double"
proof -
  from assms obtain m e where me: "\<bar>m\<bar> < 2 ^ 53" "q = of_int m * 2 powi e"
    unfolding is_double_def by blast
  show ?thesis
  proof (cases "0 \<le> e")
    case True
    then have "q = of_int (m * 2 ^ nat e)" by (simp add: me(2) power_int_def)
    then have "decimal_round q n = q" by (simp only: decimal_round_of_int)
    then show ?thesis using is_double_le_max[OF assms] by simp
  next
    case False
    then have "(2::rat) powi e \<le> 2 powi (- 1)" by (intro power_int_increasing) auto
    then have p: "(2::rat) powi e \<le> 1 / 2" by (simp add: power_int_def)
    have "m \<le> 2 ^ 53" using me(1) by simp
    then have "(of_int m :: rat) \<le> of_int (2 ^ 53)" by (simp only: of_int_le_iff)
    then have m: "(of_int m :: rat) \<le> 2 ^ 53" by simp
    have "q \<le> 2 ^ 53 * (1 / 2)"
    proof (cases "0 \<le> m")
      case True
      then show ?thesis unfolding me(2) using m p by (intro mult_mono) auto
    next
      case False
      then have "q \<le> 0" by (simp add: me(2) mult_le_0_iff)
      then show ?thesis by simp
    qed
    moreover have "decimal_round q n \<le> q + 1 / (2 * 10 ^ n)"
      using decimal_round_error[of q n] by linarith
    moreover have "1 / (2 * 10 ^ n) \<le> (1::rat)"
    proof -
      have "(1::rat) \<le> 10 ^ n" by (rule one_le_power) simp
      then have "(1::rat) \<le> 2 * 10 ^ n" by linarith
      then show ?thesis by (simp add: divide_le_eq_1)
    qed
    ultimately have "decimal_round q n \<le> 2 ^ 53 * (1 / 2) + 1" by linarith
    also have "\<dots> \<le> max_double" by (simp add: max_double_def)
    finally show ?thesis .
  qed
qed

lemma py_round_no_overflow:
  assumes "is_double q" "0 < q"
  shows "\<exists>r. py_round (Finite q) n = Inr (Finite r) \<and> nearest_double (decimal_round q n) = Finite r"
proof (cases "decimal_round q n = 0")
  case True
  then show ?thesis by (simp add: py_round_def nearest_double_def)
next
  case False
  moreover have "0 \<le> decimal_round q n" using assms(2) by (intro decimal_round_nonneg) simp
  ultimately have "0 < decimal_round q n" by simp
  from nearest_double_bounded[OF this decimal_round_le_max[OF assms(1)]]
  show ?thesis by (auto simp: py_round_def)
qed

subsection \<open>The nearest float is a float\<close>

lemma float_exponent_less:
  assumes "0 < q"
  shows "q < 2 powi (float_exponent q + 1)"
proof -
  obtain a b where ab: "quotient_of q = (a, b)" by (cases "quotient_of q")
  then have b: "0 < b" and q: "q = of_int a / of_int b"
    by (auto dest: quotient_of_denom_pos quotient_of_div)
  with assms have a: "0 < a" by (simp add: zero_less_divide_iff)
  define k where "k = bitlen a - bitlen b"
  have la: "1 \<le> bitlen a" and lb: "1 \<le> bitlen b"
    using a b by (simp_all add: bitlen_alt_def)
  show ?thesis
  proof (cases "2 powi k \<le> q")
    case False
    then show ?thesis
      unfolding float_exponent_def ab k_def[symmetric] by (simp add: k_def[symmetric] Let_def)
  next
    case True
    have "a < 2 ^ nat (bitlen a)" using bitlen_bounds[OF a] by simp
    then have "(of_int a :: rat) < of_int (2 ^ nat (bitlen a))" by (simp only: of_int_less_iff)
    also have "\<dots> = 2 powi (bitlen a)" using la by (simp add: power_int_def)
    also have "\<dots> = 2 powi (k + 1) * 2 powi (bitlen b - 1)"
      by (simp add: k_def power_int_add[symmetric])
    also have "\<dots> \<le> 2 powi (k + 1) * of_int b"
    proof (rule mult_left_mono)
      have "(2::rat) powi (bitlen b - 1) = of_int (2 ^ nat (bitlen b - 1))"
        using lb by (simp add: power_int_def)
      also have "\<dots> \<le> of_int b" using bitlen_bounds[OF b] by (simp only: of_int_le_iff)
      finally show "(2::rat) powi (bitlen b - 1) \<le> of_int b" .
    qed simp
    finally have "q < 2 powi (k + 1)"
      using b by (simp add: q pos_divide_less_eq)
    with True show ?thesis
      unfolding float_exponent_def ab k_def[symmetric] by (simp add: k_def[symmetric] Let_def)
  qed
qed


lemma round_half_even_ge: "of_int N \<le> x \<Longrightarrow> N \<le> round_half_even x"
  using round_half_even_cases[of x] by (auto simp: le_floor_iff) linarith+

lemma two_powi_numerals:
  "(2::rat) powi 52 = 2 ^ 52" "(2::rat) powi 53 = 2 ^ 53" "(2::rat) powi 1024 = 2 ^ 1024"
  by (simp_all add: power_int_def)

lemma two_powi_add: "(2::rat) powi (a + b) = 2 powi a * 2 powi b"
  by (rule power_int_add) simp

lemma scale_back: "(p::rat) \<noteq> 0 \<Longrightarrow> (x - q / p) * p = x * p - q"
  by (simp add: left_diff_distrib)

lemma nearest_double_is_double:
  assumes "0 < q" "nearest_double q = Finite r"
  shows "is_double r"
    and "\<bar>r - q\<bar> \<le> 2 powi (max (float_exponent q - 52) (- 1074)) / 2"
proof -
  define E where "E = float_exponent q"
  define e where "e = max (E - 52) (- 1074)"
  define m where "m = round_half_even (q / 2 powi e)"
  have pos: "(0::rat) < 2 powi e" by simp
  have aq: "\<bar>q\<bar> = q" using assms(1) by simp
  have nd: "nearest_double q =
      (if of_int m * 2 powi e \<ge> (2::rat) ^ 1024 then PosInf
       else if of_int m * 2 powi e \<le> - ((2::rat) ^ 1024) then NegInf
       else Finite (of_int m * 2 powi e))"
    using assms(1) unfolding nearest_double_def aq E_def[symmetric] e_def[symmetric] Let_def
      m_def[symmetric] by simp
  with assms(2) have r: "r = of_int m * 2 powi e" and small: "of_int m * 2 powi e < (2::rat) ^ 1024"
    by (auto split: if_splits)
  have m0: "0 \<le> m" unfolding m_def using assms(1) by (intro round_half_even_nonneg) simp
  have elow: "- 1074 \<le> e" by (simp add: e_def)
  have "q < 2 powi (E + 1)" unfolding E_def using assms(1) by (rule float_exponent_less)
  also have "(2::rat) powi (E + 1) \<le> 2 powi (53 + e)"
    by (intro power_int_increasing) (auto simp: e_def)
  also have "(2::rat) powi (53 + e) = 2 ^ 53 * 2 powi e"
    unfolding two_powi_add two_powi_numerals by (rule refl)
  finally have "q / 2 powi e \<le> 2 ^ 53"
    using pos by (simp add: pos_divide_le_eq)
  then have "q / 2 powi e \<le> of_int (2 ^ 53)" by simp
  then have m53: "m \<le> 2 ^ 53" unfolding m_def by (rule round_half_even_le)
  have err: "\<bar>of_int m - q / 2 powi e\<bar> \<le> 1 / 2"
    unfolding m_def by (rule round_half_even_error)
  have "r - q = (of_int m - q / 2 powi e) * 2 powi e"
    unfolding r by (rule scale_back[symmetric]) simp
  then have "\<bar>r - q\<bar> = \<bar>of_int m - q / 2 powi e\<bar> * 2 powi e"
    by (simp add: abs_mult)
  also have "\<dots> \<le> (1 / 2) * 2 powi e"
    using err pos by (intro mult_right_mono) auto
  finally show "\<bar>r - q\<bar> \<le> 2 powi (max (float_exponent q - 52) (- 1074)) / 2"
    by (simp add: e_def E_def)
  show "is_double r"
  proof (cases "m = 2 ^ 53")
    case True
    have r53: "r = 2 powi (53 + e)"
      unfolding two_powi_add two_powi_numerals r True by simp
    have "53 + e < 1024"
    proof (rule ccontr)
      assume "\<not> 53 + e < 1024"
      then have "(2::rat) powi 1024 \<le> 2 powi (53 + e)"
        by (intro power_int_increasing) auto
      with small show False unfolding r53[symmetric] r two_powi_numerals by simp
    qed
    then have e1: "e + 1 \<le> 971" by simp
    have "53 + e = 52 + (e + 1)" by simp
    then have "(2::rat) powi (53 + e) = 2 powi (52 + (e + 1))" by (simp only:)
    also have "\<dots> = 2 ^ 52 * 2 powi (e + 1)"
      unfolding two_powi_add[of 52 "e + 1"] two_powi_numerals by (rule refl)
    finally have r52: "r = of_int (2 ^ 52) * 2 powi (e + 1)"
      unfolding r53 by simp
    have a52: "\<bar>(2::int) ^ 52\<bar> < 2 ^ 53" by simp
    have elow1: "- 1074 \<le> e + 1" using elow by simp
    from a52 elow1 e1 r52
    have "\<bar>(2::int) ^ 52\<bar> < 2 ^ 53 \<and> - 1074 \<le> e + 1 \<and> e + 1 \<le> 971
            \<and> r = of_int (2 ^ 52) * 2 powi (e + 1)"
      by (intro conjI)
    then show ?thesis unfolding is_double_def by blast
  next
    case False
    with m53 m0 have mm: "\<bar>m\<bar> < 2 ^ 53" by simp
    have "e \<le> 971"
    proof (rule ccontr)
      assume "\<not> e \<le> 971"
      then have big: "971 < e" by simp
      then have eE: "E = 52 + e" by (simp add: e_def max_def split: if_splits)
      have "(2::rat) powi E \<le> q" unfolding E_def using assms(1) by (rule float_exponent_le)
      then have "(2::rat) ^ 52 * 2 powi e \<le> q"
        unfolding eE two_powi_add two_powi_numerals .
      then have "2 ^ 52 \<le> q / 2 powi e"
        using pos by (simp add: pos_le_divide_eq)
      then have "of_int (2 ^ 52) \<le> q / 2 powi e" by simp
      then have "2 ^ 52 \<le> m" unfolding m_def by (rule round_half_even_ge)
      then have "(of_int (2 ^ 52) :: rat) \<le> of_int m" by (simp only: of_int_le_iff)
      then have "((2::rat) ^ 52) * 2 powi e \<le> of_int m * 2 powi e"
        using pos by (intro mult_right_mono) auto
      moreover have "(2::rat) powi 1024 \<le> 2 powi (52 + e)"
        using big by (intro power_int_increasing) auto
      then have "(2::rat) ^ 1024 \<le> 2 ^ 52 * 2 powi e"
        unfolding two_powi_add two_powi_numerals .
      ultimately have "(2::rat) ^ 1024 \<le> of_int m * 2 powi e"
        by (rule order_trans[rotated])
      with small show False by simp
    qed
    with mm elow r show ?thesis unfolding is_double_def by blast
  qed
qed

lemma is_double_zero: "is_double 0"
  unfolding is_double_def by (rule exI[of _ 0], rule exI[of _ 0]) simp

lemma py_round_is_float:
  assumes "is_double q" "0 < q" "py_round (Finite q) n = Inr r"
  shows "float_ok r"
proof -
  from py_round_no_overflow[OF assms(1,2), of n] assms(3) obtain r' where
    r': "r = Finite r'" "nearest_double (decimal_round q n) = Finite r'"
    by auto
  show ?thesis
  proof (cases "decimal_round q n = 0")
    case True
    with r' show ?thesis by (simp add: nearest_double_def is_double_zero)
  next
    case False
    moreover have "0 \<le> decimal_round q n" using assms(2) by (intro decimal_round_nonneg) simp
    ultimately have "0 < decimal_round q n" by simp
    from nearest_double_is_double(1)[OF this r'(2)] show ?thesis by (simp add: r'(1))
  qed
qed


subsection \<open>The blood-pressure validator on matching and on other input\<close>

lemma digits23_no_slash: "digits23 a \<Longrightarrow> CHR ''/'' \<notin> set a"
  using is_digit_not_special(5) by (auto simp: digits23_def list_all_iff)

lemma digits23_no_LF: "digits23 a \<Longrightarrow> LF \<notin> set a"
  using is_digit_not_special(6) by (auto simp: digits23_def list_all_iff)

lemma digits23_not_Nil: "digits23 a \<Longrightarrow> a \<noteq> []"
  by (auto simp: digits23_def)

lemma re_match_bp_iff:
  "re_match_anchored bp_pattern v \<longleftrightarrow>
     (\<exists>a b t. v = a @ CHR ''/'' # b @ t \<and> digits23 a \<and> digits23 b \<and> (t = [] \<or> t = [LF]))"
proof
  assume "re_match_anchored bp_pattern v"
  then consider "v \<in> lang bp_pattern" | w where "v = w @ [LF]" "w \<in> lang bp_pattern"
    unfolding re_match_anchored_iff by blast
  then show "\<exists>a b t. v = a @ CHR ''/'' # b @ t \<and> digits23 a \<and> digits23 b \<and> (t = [] \<or> t = [LF])"
  proof cases
    case 1
    then obtain a b where "v = a @ CHR ''/'' # b @ []" "digits23 a" "digits23 b"
      unfolding lang_bp_pattern by auto
    then show ?thesis by blast
  next
    case 2
    then obtain a b where "v = a @ CHR ''/'' # b @ [LF]" "digits23 a" "digits23 b"
      unfolding lang_bp_pattern by auto
    then show ?thesis by blast
  qed
next
  assume "\<exists>a b t. v = a @ CHR ''/'' # b @ t \<and> digits23 a \<and> digits23 b \<and> (t = [] \<or> t = [LF])"
  then obtain a b t where v: "v = a @ CHR ''/'' # b @ t" and d: "digits23 a" "digits23 b"
    and t: "t = [] \<or> t = [LF]" by blast
  from d have w: "a @ CHR ''/'' # b \<in> lang bp_pattern" unfolding lang_bp_pattern by blast
  from t show "re_match_anchored bp_pattern v"
  proof
    assume "t = []"
    with v w show ?thesis unfolding re_match_anchored_iff by simp
  next
    assume "t = [LF]"
    with v have "v = (a @ CHR ''/'' # b) @ [LF]" by simp
    with w show ?thesis unfolding re_match_anchored_iff by blast
  qed
qed

lemma unpack_bp_parts:
  assumes "digits23 a" "digits23 b" "t = [] \<or> t = [LF]"
  shows "unpack2_map_int (str_split (CHR ''/'') (a @ CHR ''/'' # b @ t))
           = Inr (int (digits_value a), int (digits_value b))"
proof -
  have da: "list_all is_digit a" "a \<noteq> []" and db: "list_all is_digit b" "b \<noteq> []"
    using assms(1,2) by (auto simp: digits23_def)
  have "CHR ''/'' \<notin> set (b @ t)"
    using assms(2,3) digits23_no_slash[of b] by auto
  then have "str_split (CHR ''/'') (a @ CHR ''/'' # b @ t) = [a, b @ t]"
    using digits23_no_slash[OF assms(1)] by (simp add: str_split_append str_split_no_sep)
  moreover have "py_int a = Inr (int (digits_value a))" using da by (rule py_int_digits)
  moreover have "py_int (b @ t) = Inr (int (digits_value b))"
    using assms(3) py_int_digits[OF db] by auto
  ultimately show ?thesis by simp
qed

lemma validate_bp_matched:
  assumes "str_replace_empty (CHR '' '') v0 = a @ CHR ''/'' # b @ t"
    and "digits23 a" "digits23 b" "t = [] \<or> t = [LF]"
  shows "validate_blood_pressure v0 =
           bp_range_check (int (digits_value a)) (int (digits_value b)) (a @ CHR ''/'' # b @ t)"
proof -
  have "re_match_anchored bp_pattern (a @ CHR ''/'' # b @ t)"
    unfolding re_match_bp_iff using assms(2-4) by blast
  then show ?thesis
    unfolding validate_blood_pressure_def assms(1) Let_def bp_range_check_def
    by (simp add: unpack_bp_parts[OF assms(2-4)])
qed


lemma fullmatch_bp_iff:
  "fullmatch bp_pattern v \<longleftrightarrow> (\<exists>a b. v = a @ CHR ''/'' # b \<and> digits23 a \<and> digits23 b)"
  unfolding fullmatch_lang lang_bp_pattern by auto



subsection \<open>Which exceptions the validators raise\<close>

lemma py_int_error: "py_int s = Inl e \<Longrightarrow> \<exists>m. e = ValueError m"
  by (auto simp: py_int_def Let_def split: if_splits prod.splits)

lemma unpack2_map_int_error: "unpack2_map_int l = Inl e \<Longrightarrow> \<exists>m. e = ValueError m"
  by (induction l rule: unpack2_map_int.induct)
     (auto split: sum.splits list.splits dest: py_int_error)

lemma validate_blood_pressure_error:
  "validate_blood_pressure v = Inl e \<Longrightarrow> \<exists>m. e = ValueError m"
  by (auto simp: validate_blood_pressure_def Let_def split: if_splits sum.splits prod.splits
      dest: unpack2_map_int_error)

lemma escaping_bp: "escaping (validate_blood_pressure v) = None"
proof (cases "validate_blood_pressure v")
  case (Inl e)
  then show ?thesis using validate_blood_pressure_error[OF Inl] by auto
qed simp

lemma py_round_float_ok:
  assumes "float_ok v" "float_gt_int v 0"
  shows "\<exists>r. py_round v n = Inr r"
proof (cases v)
  case (Finite q)
  with assms have "is_double q" "0 < q" by auto
  from py_round_no_overflow[OF this, of n] show ?thesis by (auto simp: Finite)
qed (auto simp: py_round_def)

lemma float_le_or_gt: "v \<noteq> NaN \<Longrightarrow> float_le_int v n \<or> float_gt_int v n"
  by (cases v) auto

lemma escaping_weight_glucose:
  assumes "float_le_int v 0 \<or> float_ok v"
  shows "escaping (validate_weight v) = None" "escaping (validate_glucose v) = None"
proof -
  have "float_le_int v 0 \<or> (\<exists>r. py_round v 2 = Inr r)"
  proof (cases "float_le_int v 0")
    case False
    show ?thesis
    proof (cases "v = NaN")
      case True
      then show ?thesis by (simp add: py_round_def)
    next
      case nn: False
      with False have "float_gt_int v 0" using float_le_or_gt by blast
      with assms False show ?thesis using py_round_float_ok by blast
    qed
  qed simp
  then show "escaping (validate_weight v) = None" "escaping (validate_glucose v) = None"
    by (auto simp: validate_weight_def validate_glucose_def)
qed

lemma HealthDataRequest_validate_collects:
  assumes "escaping (validate_weight w) = None" "escaping (validate_glucose g) = None"
  shows "HealthDataRequest_validate w b g =
           (case (validate_weight w, validate_blood_pressure b, validate_glucose g) of
              (Inr w', Inr b', Inr g') \<Rightarrow> Inr \<lparr>weight = w', bp = b', glucose = g'\<rparr>
            | _ \<Rightarrow> Inl (ValidationError
                        (field_errors ''weight'' (validate_weight w)
                           @ field_errors ''bp'' (validate_blood_pressure b)
                           @ field_errors ''glucose'' (validate_glucose g))))"
  unfolding HealthDataRequest_validate_def Let_def by (simp add: assms escaping_bp)

lemma field_error_reported:
  assumes "escaping (validate_weight w) = None" "escaping (validate_glucose g) = None"
    and "(validate_weight w = Inl (ValueError m) \<and> f = ''weight'')
       \<or> (validate_blood_pressure b = Inl (ValueError m) \<and> f = ''bp'')
       \<or> (validate_glucose g = Inl (ValueError m) \<and> f = ''glucose'')"
  shows "\<exists>errs. HealthDataRequest_validate w b g = Inl (ValidationError errs) \<and> (f, m) \<in> set errs"
  using assms(3) unfolding HealthDataRequest_validate_collects[OF assms(1,2)]
  by (auto split: sum.splits)

subsection \<open>The handlers\<close>

lemma demo_user1:
  "get_current_user demo_decode (Some ''Bearer t1'') demo_db = Inr \<lparr>user_id = 1\<rparr>"
  by code_simp

text \<open>C1. For a resolved user, listing returns the stored records whose patient
  reference is the user's id, all of them and no other record, in storage order, and the
  database is returned as it was.\<close>

theorem list_returns_own_records:
  assumes "get_current_user decode_access_token authorization d = Inr u"
  shows "\<exists>es. get_healthdata decode_access_token authorization d = (d, Inr es)
           \<and> get_health_data d u = (d, es)
           \<and> es = filter (\<lambda>e. hd_patient_id e = user_id u) (health_data d)
           \<and> set es = {e \<in> set (health_data d). hd_patient_id e = user_id u}"
  using assms by (simp add: get_healthdata_def get_health_data_def)

theorem list_returns_own_records_witness:
  "get_current_user demo_decode (Some ''Bearer t1'') demo_db = Inr \<lparr>user_id = 1\<rparr>
   \<and> (\<exists>es. get_healthdata demo_decode (Some ''Bearer t1'') demo_db = (demo_db, Inr es)
           \<and> get_health_data demo_db \<lparr>user_id = 1\<rparr> = (demo_db, es)
           \<and> es = filter (\<lambda>e. hd_patient_id e = user_id \<lparr>user_id = 1\<rparr>) (health_data demo_db)
           \<and> set es = {e \<in> set (health_data demo_db). hd_patient_id e = user_id \<lparr>user_id = 1\<rparr>})"
  by (rule conjI[OF demo_user1 list_returns_own_records[OF demo_user1]])

text \<open>C8. Submitting a validated payload as a resolved user appends exactly one record,
  whose patient reference is the user's id and whose fields are those of the payload,
  leaves the stored records and the users as they were, and answers with the id of the new
  record as \<open>data_id\<close>.\<close>

theorem submit_inserts_one_record:
  assumes "log_health_data new_id now data d u = (d', r)"
  shows "health_data d' = health_data d @
             [\<lparr>hd_id = new_id, hd_patient_id = user_id u, hd_weight = weight data,
               hd_bp = bp data, hd_glucose = glucose data, hd_timestamp = now\<rparr>]
         \<and> users d' = users d
         \<and> data_id r = hd_id (last (health_data d'))
         \<and> message r = ''Health data recorded''"
  using assms by (auto simp: log_health_data_def add_commit_refresh_def Let_def)

lemma demo_log:
  "log_health_data 4 1004 demo_request demo_db \<lparr>user_id = 2\<rparr>
     = (demo_db\<lparr>health_data := health_data demo_db @ [demo_record 4 2 ''120/80'']\<rparr>,
        \<lparr>message = ''Health data recorded'', data_id = 4\<rparr>)"
  by (simp add: log_health_data_def add_commit_refresh_def demo_request_def demo_record_def Let_def)

theorem submit_inserts_one_record_witness:
  "health_data (demo_db\<lparr>health_data := health_data demo_db @ [demo_record 4 2 ''120/80'']\<rparr>)
     = health_data demo_db @
             [\<lparr>hd_id = 4, hd_patient_id = user_id \<lparr>user_id = 2\<rparr>, hd_weight = weight demo_request,
               hd_bp = bp demo_request, hd_glucose = glucose demo_request, hd_timestamp = 1004\<rparr>]
   \<and> users (demo_db\<lparr>health_data := health_data demo_db @ [demo_record 4 2 ''120/80'']\<rparr>) = users demo_db
   \<and> data_id \<lparr>message = ''Health data recorded'', data_id = 4\<rparr>
        = hd_id (last (health_data (demo_db\<lparr>health_data := health_data demo_db @ [demo_record 4 2 ''120/80'']\<rparr>)))
   \<and> message \<lparr>message = ''Health data recorded'', data_id = 4\<rparr> = ''Health data recorded''"
  by (rule submit_inserts_one_record[OF demo_log])

subsection \<open>Blood pressure: format\<close>

lemma is_double_eighth: "is_double (1 / 8)"
  unfolding is_double_def by (rule exI[of _ 1], rule exI[of _ "- 3"]) (simp add: power_int_def power_divide)

lemma is_double_int: "\<bar>i\<bar> < 2 ^ 53 \<Longrightarrow> is_double (of_int i)"
  unfolding is_double_def by (rule exI[of _ i], rule exI[of _ 0]) simp


lemma float_ok_5: "float_ok (Finite 5)"
  using is_double_int[of 5] by simp

lemma bp_error_reported:
  assumes "validate_blood_pressure v = Inl (ValueError m)" "float_ok w" "float_ok g"
  shows "\<exists>errs. HealthDataRequest_validate w v g = Inl (ValidationError errs) \<and> (''bp'', m) \<in> set errs"
  using assms by (intro field_error_reported escaping_weight_glucose) auto





subsection \<open>Blood pressure: ranges, and what is not stripped\<close>

text \<open>C4. When the input without its spaces matches the pattern, it is \<open>a/b\<close> with two or
  three digits on each side, the two integers are the decimal values of \<open>a\<close> and \<open>b\<close>,
  validation fails (a \<^verbatim>\<open>ValueError\<close>, reported by pydantic as a \<^verbatim>\<open>ValidationError\<close> on
  \<open>bp\<close>) if the systolic value is outside 70..250 or the diastolic one outside 40..150,
  and otherwise the value retained is \<open>a/b\<close>, which holds no whitespace.\<close>

theorem bp_range_enforced:
  assumes "fullmatch bp_pattern (str_replace_empty (CHR '' '') v)"
  shows "\<exists>a b systolic diastolic.
           str_replace_empty (CHR '' '') v = a @ CHR ''/'' # b
         \<and> digits23 a \<and> digits23 b
         \<and> systolic = int (digits_value a) \<and> diastolic = int (digits_value b)
         \<and> unpack2_map_int (str_split (CHR ''/'') (a @ CHR ''/'' # b)) = Inr (systolic, diastolic)
         \<and> validate_blood_pressure v =
             (if systolic < 70 \<or> systolic > 250
              then Inl (ValueError ''Systolic pressure must be between 70 and 250'')
              else if diastolic < 40 \<or> diastolic > 150
              then Inl (ValueError ''Diastolic pressure must be between 40 and 150'')
              else Inr (a @ CHR ''/'' # b))
         \<and> list_all (\<lambda>c. \<not> is_space c) (a @ CHR ''/'' # b)
         \<and> (\<forall>m w g. validate_blood_pressure v = Inl (ValueError m) \<and> float_ok w \<and> float_ok g
               \<longrightarrow> (\<exists>errs. HealthDataRequest_validate w v g = Inl (ValidationError errs)
                           \<and> (''bp'', m) \<in> set errs))"
proof -
  from assms obtain a b where v: "str_replace_empty (CHR '' '') v = a @ CHR ''/'' # b"
    and d: "digits23 a" "digits23 b"
    unfolding fullmatch_bp_iff by blast
  have t: "([]::string) = [] \<or> ([]::string) = [LF]" by simp
  have u: "unpack2_map_int (str_split (CHR ''/'') (a @ CHR ''/'' # b))
             = Inr (int (digits_value a), int (digits_value b))"
    using unpack_bp_parts[OF d t] by simp
  have r: "validate_blood_pressure v =
             bp_range_check (int (digits_value a)) (int (digits_value b)) (a @ CHR ''/'' # b)"
    using validate_bp_matched[of v a b "[]"] v d by simp
  have "\<forall>c \<in> set a \<union> set b. is_digit c" using d by (auto simp: digits23_def list_all_iff)
  then have s: "list_all (\<lambda>c. \<not> is_space c) (a @ CHR ''/'' # b)"
    using is_digit_not_special(1) by (auto simp: list_all_iff is_space_def)
  have m: "\<forall>m w g. validate_blood_pressure v = Inl (ValueError m) \<and> float_ok w \<and> float_ok g
               \<longrightarrow> (\<exists>errs. HealthDataRequest_validate w v g = Inl (ValidationError errs)
                           \<and> (''bp'', m) \<in> set errs)"
    using bp_error_reported by blast
  show ?thesis
    using v d u r s m unfolding bp_range_check_def by blast
qed


theorem bp_range_enforced_witness:
  "fullmatch bp_pattern (str_replace_empty (CHR '' '') ''1 20/ 80'')
   \<and> (\<exists>a b systolic diastolic.
           str_replace_empty (CHR '' '') ''1 20/ 80'' = a @ CHR ''/'' # b
         \<and> digits23 a \<and> digits23 b
         \<and> systolic = int (digits_value a) \<and> diastolic = int (digits_value b)
         \<and> unpack2_map_int (str_split (CHR ''/'') (a @ CHR ''/'' # b)) = Inr (systolic, diastolic)
         \<and> validate_blood_pressure ''1 20/ 80'' =
             (if systolic < 70 \<or> systolic > 250
              then Inl (ValueError ''Systolic pressure must be between 70 and 250'')
              else if diastolic < 40 \<or> diastolic > 150
              then Inl (ValueError ''Diastolic pressure must be between 40 and 150'')
              else Inr (a @ CHR ''/'' # b))
         \<and> list_all (\<lambda>c. \<not> is_space c) (a @ CHR ''/'' # b)
         \<and> (\<forall>m w g. validate_blood_pressure ''1 20/ 80'' = Inl (ValueError m) \<and> float_ok w \<and> float_ok g
               \<longrightarrow> (\<exists>errs. HealthDataRequest_validate w ''1 20/ 80'' g = Inl (ValidationError errs)
                           \<and> (''bp'', m) \<in> set errs)))
   \<and> validate_blood_pressure ''1 20/ 80'' = Inr ''120/80''
   \<and> validate_blood_pressure ''60/80'' = Inl (ValueError ''Systolic pressure must be between 70 and 250'')
   \<and> validate_blood_pressure ''120/30'' = Inl (ValueError ''Diastolic pressure must be between 40 and 150'')"
proof -
  have h: "fullmatch bp_pattern (str_replace_empty (CHR '' '') ''1 20/ 80'')" by code_simp
  have e1: "validate_blood_pressure ''1 20/ 80'' = Inr ''120/80''" by code_simp
  have e2: "validate_blood_pressure ''60/80'' = Inl (ValueError ''Systolic pressure must be between 70 and 250'')"
    by code_simp
  have e3: "validate_blood_pressure ''120/30'' = Inl (ValueError ''Diastolic pressure must be between 40 and 150'')"
    by code_simp
  from h bp_range_enforced[OF h] e1 e2 e3 show ?thesis by (intro conjI)
qed



subsection \<open>Weight and glucose\<close>

lemma py_round_finite:
  assumes "is_double q" "0 < q"
  shows "\<exists>r k. py_round (Finite q) 2 = Inr r
           \<and> k = round_half_even (q * 100)
           \<and> r = nearest_double (of_int k / 100)
           \<and> \<bar>of_int k / 100 - q\<bar> \<le> 1 / 200"
proof -
  from py_round_no_overflow[OF assms, of 2] obtain r where
    r: "py_round (Finite q) 2 = Inr (Finite r)" "nearest_double (decimal_round q 2) = Finite r"
    by blast
  have d: "decimal_round q 2 = of_int (round_half_even (q * 100)) / 100"
    by (simp add: decimal_round_def)
  have "\<bar>decimal_round q 2 - q\<bar> \<le> 1 / (2 * 10 ^ 2)" by (rule decimal_round_error)
  also have "(1::rat) / (2 * 10 ^ 2) = 1 / 200" by simp
  finally have e: "\<bar>decimal_round q 2 - q\<bar> \<le> 1 / 200" .
  from r(1) r(2)[symmetric] e show ?thesis unfolding d by blast
qed

text \<open>C5. A weight or glucose value \<open>\<le> 0\<close> is rejected with the validator's
  \<^verbatim>\<open>ValueError\<close>, which pydantic reports as a \<^verbatim>\<open>ValidationError\<close> on that field. A float
  \<open>> 0\<close> is accepted, and the value kept is \<^verbatim>\<open>round(v, 2)\<close>: for a finite \<open>v\<close> the float
  nearest to \<open>k/100\<close>, where \<open>k/100\<close> is the two-decimal number nearest to \<open>v\<close> (within
  \<open>1/200\<close>, ties to the even \<open>k\<close>); the rounding never overflows, and the value kept
  is again a float. The positive infinity is kept as it is.\<close>

theorem weight_glucose_rule:
  "(float_le_int v 0 \<longrightarrow>
      validate_weight v = Inl (ValueError ''Weight must be a positive number'')
    \<and> validate_glucose v = Inl (ValueError ''Glucose level must be a positive number'')
    \<and> (\<forall>b g. float_ok g \<longrightarrow>
          (\<exists>errs. HealthDataRequest_validate v b g = Inl (ValidationError errs)
                  \<and> (''weight'', ''Weight must be a positive number'') \<in> set errs))
    \<and> (\<forall>w b. float_ok w \<longrightarrow>
          (\<exists>errs. HealthDataRequest_validate w b v = Inl (ValidationError errs)
                  \<and> (''glucose'', ''Glucose level must be a positive number'') \<in> set errs)))
   \<and> (float_ok v \<and> float_gt_int v 0 \<longrightarrow>
        (\<exists>r. validate_weight v = Inr r \<and> validate_glucose v = Inr r \<and> py_round v 2 = Inr r
            \<and> float_ok r
            \<and> (\<forall>q. v = Finite q \<longrightarrow>
                  (\<exists>k. k = round_half_even (q * 100)
                      \<and> r = nearest_double (of_int k / 100)
                      \<and> \<bar>of_int k / 100 - q\<bar> \<le> 1 / 200))
            \<and> (v = PosInf \<longrightarrow> r = PosInf)))"
proof (intro conjI impI allI)
  assume le: "float_le_int v 0"
  show w: "validate_weight v = Inl (ValueError ''Weight must be a positive number'')"
    using le by (simp add: validate_weight_def)
  show g: "validate_glucose v = Inl (ValueError ''Glucose level must be a positive number'')"
    using le by (simp add: validate_glucose_def)
  { fix b g' assume "float_ok g'"
    then show "\<exists>errs. HealthDataRequest_validate v b g' = Inl (ValidationError errs)
                  \<and> (''weight'', ''Weight must be a positive number'') \<in> set errs"
      using le w by (intro field_error_reported escaping_weight_glucose) auto }
  { fix w' b assume "float_ok w'"
    then show "\<exists>errs. HealthDataRequest_validate w' b v = Inl (ValidationError errs)
                  \<and> (''glucose'', ''Glucose level must be a positive number'') \<in> set errs"
      using le g by (intro field_error_reported escaping_weight_glucose) auto }
next
  assume a: "float_ok v \<and> float_gt_int v 0"
  then have nle: "\<not> float_le_int v 0" by (cases v) auto
  have vw: "validate_weight v = py_round v 2" and vg: "validate_glucose v = py_round v 2"
    using nle by (simp_all add: validate_weight_def validate_glucose_def)
  show "\<exists>r. validate_weight v = Inr r \<and> validate_glucose v = Inr r \<and> py_round v 2 = Inr r
            \<and> float_ok r
            \<and> (\<forall>q. v = Finite q \<longrightarrow>
                  (\<exists>k. k = round_half_even (q * 100)
                      \<and> r = nearest_double (of_int k / 100)
                      \<and> \<bar>of_int k / 100 - q\<bar> \<le> 1 / 200))
            \<and> (v = PosInf \<longrightarrow> r = PosInf)"
  proof (cases v)
    case (Finite q)
    with a have dq: "is_double q" "0 < q" by auto
    from py_round_finite[OF this] obtain r k where
      rk: "py_round (Finite q) 2 = Inr r" "k = round_half_even (q * 100)"
        "r = nearest_double (of_int k / 100)" "\<bar>of_int k / 100 - q\<bar> \<le> 1 / 200"
      by blast
    have "validate_weight v = Inr r" "validate_glucose v = Inr r" "py_round v 2 = Inr r"
      using rk(1) vw vg Finite by simp_all
    moreover have "\<forall>q'. v = Finite q' \<longrightarrow>
                  (\<exists>k. k = round_half_even (q' * 100)
                      \<and> r = nearest_double (of_int k / 100)
                      \<and> \<bar>of_int k / 100 - q'\<bar> \<le> 1 / 200)"
      using rk(2-4) Finite by blast
    moreover have "v = PosInf \<longrightarrow> r = PosInf" using Finite by simp
    moreover have "float_ok r" using dq rk(1) by (rule py_round_is_float)
    ultimately show ?thesis by blast
  next
    case PosInf
    then show ?thesis unfolding vw vg by (simp add: py_round_def)
  next
    case NegInf
    with a show ?thesis by simp
  next
    case NaN
    with a show ?thesis by simp
  qed
qed

lemma nearest_double_3_25:
  "nearest_double (3 / 25) = Finite (1080863910568919 / 9007199254740992)"
proof -
  have e: "max (float_exponent \<bar>3 / 25\<bar> - 52) (- 1074) = - 56" by code_simp
  have m: "round_half_even (3 / 25 / 2 powi (- 56)) = 8646911284551352" by code_simp
  have r: "of_int 8646911284551352 * 2 powi (- 56) = (1080863910568919 / 9007199254740992 :: rat)"
    by (simp add: power_int_def power_divide)
  show ?thesis
    unfolding nearest_double_def Let_def e m r by simp
qed

lemma validate_weight_eighth:
  "validate_weight (Finite (1 / 8)) = Inr (Finite (1080863910568919 / 9007199254740992))"
proof -
  have d: "decimal_round (1 / 8) 2 = 3 / 25" by code_simp
  show ?thesis
    by (simp add: validate_weight_def py_round_def d nearest_double_3_25)
qed

lemma nearest_double_70: "nearest_double 70 = Finite 70"
proof -
  have e: "max (float_exponent \<bar>70\<bar> - 52) (- 1074) = - 46" by code_simp
  have m: "round_half_even (70 / 2 powi (- 46)) = 4925812092436480" by code_simp
  have r: "of_int 4925812092436480 * 2 powi (- 46) = (70 :: rat)"
    by (simp add: power_int_def power_divide)
  show ?thesis
    unfolding nearest_double_def Let_def e m r by simp
qed

lemma nearest_double_5: "nearest_double 5 = Finite 5"
proof -
  have e: "max (float_exponent \<bar>5\<bar> - 52) (- 1074) = - 50" by code_simp
  have m: "round_half_even (5 / 2 powi (- 50)) = 5629499534213120" by code_simp
  have r: "of_int 5629499534213120 * 2 powi (- 50) = (5 :: rat)"
    by (simp add: power_int_def power_divide)
  show ?thesis
    unfolding nearest_double_def Let_def e m r by simp
qed

lemma validate_70_5:
  "validate_weight (Finite 70) = Inr (Finite 70)" "validate_glucose (Finite 5) = Inr (Finite 5)"
proof -
  have "decimal_round 70 2 = 70" "decimal_round 5 2 = 5"
    using decimal_round_of_int[of 70 2] decimal_round_of_int[of 5 2] by simp_all
  then show "validate_weight (Finite 70) = Inr (Finite 70)"
    "validate_glucose (Finite 5) = Inr (Finite 5)"
    by (simp_all add: validate_weight_def validate_glucose_def py_round_def
        nearest_double_70 nearest_double_5)
qed


theorem weight_glucose_rule_witness:
  "float_le_int (Finite (- 1)) 0
   \<and> validate_weight (Finite (- 1)) = Inl (ValueError ''Weight must be a positive number'')
   \<and> validate_glucose (Finite (- 1)) = Inl (ValueError ''Glucose level must be a positive number'')
   \<and> float_ok (Finite 5)
   \<and> (\<exists>errs. HealthDataRequest_validate (Finite (- 1)) ''120/80'' (Finite 5) = Inl (ValidationError errs)
            \<and> (''weight'', ''Weight must be a positive number'') \<in> set errs)
   \<and> float_ok (Finite (1 / 8)) \<and> float_gt_int (Finite (1 / 8)) 0
   \<and> (\<exists>r. validate_weight (Finite (1 / 8)) = Inr r \<and> validate_glucose (Finite (1 / 8)) = Inr r
          \<and> float_ok r
          \<and> r = nearest_double (of_int (round_half_even (1 / 8 * 100)) / 100)
          \<and> \<bar>of_int (round_half_even (1 / 8 * 100)) / 100 - 1 / 8\<bar> \<le> (1 / 200 :: rat))
   \<and> validate_weight (Finite (1 / 8)) = Inr (Finite (1080863910568919 / 9007199254740992))"
proof -
  have h1: "float_le_int (Finite (- 1)) 0" by simp
  have h2: "float_ok (Finite (1 / 8))" using is_double_eighth by simp
  have h3: "float_gt_int (Finite (1 / 8)) 0" by simp
  note e = validate_weight_eighth
  note n = weight_glucose_rule[of "Finite (- 1)"]
  note p = weight_glucose_rule[of "Finite (1 / 8)"]
  from n h1 have c1: "validate_weight (Finite (- 1)) = Inl (ValueError ''Weight must be a positive number'')"
    and c2: "validate_glucose (Finite (- 1)) = Inl (ValueError ''Glucose level must be a positive number'')"
    by blast+
  from n h1 float_ok_5
  have c3: "\<exists>errs. HealthDataRequest_validate (Finite (- 1)) ''120/80'' (Finite 5) = Inl (ValidationError errs)
            \<and> (''weight'', ''Weight must be a positive number'') \<in> set errs"
    by blast
  from p h2 h3
  have c4: "\<exists>r. validate_weight (Finite (1 / 8)) = Inr r \<and> validate_glucose (Finite (1 / 8)) = Inr r
          \<and> float_ok r
          \<and> r = nearest_double (of_int (round_half_even (1 / 8 * 100)) / 100)
          \<and> \<bar>of_int (round_half_even (1 / 8 * 100)) / 100 - 1 / 8\<bar> \<le> (1 / 200 :: rat)"
    by blast
  from h1 c1 c2 float_ok_5 c3 h2 h3 c4 e show ?thesis by (intro conjI)
qed


subsection \<open>Authentication\<close>

text \<open>C6 (as amended). When the Authorization header is missing or empty, authentication
  fails with 401 \<^verbatim>\<open>Token missing\<close>. When it is not empty and does not split into exactly
  two whitespace-separated parts of which the first is, in lower case, \<^verbatim>\<open>bearer\<close>, it
  fails with 401 \<^verbatim>\<open>Invalid authorization header\<close>; the header \<^verbatim>\<open>Bearer\<close> alone is such a
  one.\<close>

theorem auth_header_checked:
  "get_current_user decode_access_token None d = Inl (HTTPException 401 ''Token missing'')
   \<and> get_current_user decode_access_token (Some []) d = Inl (HTTPException 401 ''Token missing'')
   \<and> (h \<noteq> [] \<and> (length (str_split_ws h) \<noteq> 2 \<or> str_lower (str_split_ws h ! 0) \<noteq> ''bearer'')
        \<longrightarrow> get_current_user decode_access_token (Some h) d
              = Inl (HTTPException 401 ''Invalid authorization header''))
   \<and> get_current_user decode_access_token (Some ''Bearer'') d
         = Inl (HTTPException 401 ''Invalid authorization header'')"
proof (intro conjI impI)
  show "get_current_user decode_access_token None d = Inl (HTTPException 401 ''Token missing'')"
    by (simp add: get_current_user_def)
  show "get_current_user decode_access_token (Some []) d = Inl (HTTPException 401 ''Token missing'')"
    by (simp add: get_current_user_def)
next
  assume a: "h \<noteq> [] \<and> (length (str_split_ws h) \<noteq> 2 \<or> str_lower (str_split_ws h ! 0) \<noteq> ''bearer'')"
  show "get_current_user decode_access_token (Some h) d
          = Inl (HTTPException 401 ''Invalid authorization header'')"
  proof (cases "str_split_ws h")
    case Nil
    with a show ?thesis by (simp add: get_current_user_def)
  next
    case (Cons s ps)
    show ?thesis
    proof (cases ps)
      case Nil
      with a Cons show ?thesis by (simp add: get_current_user_def)
    next
      case c2: (Cons t qs)
      show ?thesis
      proof (cases qs)
        case Nil
        with a Cons c2 show ?thesis by (simp add: get_current_user_def)
      next
        case c3: (Cons x ys)
        with a Cons c2 show ?thesis by (simp add: get_current_user_def)
      qed
    qed
  qed
next
  have "str_split_ws ''Bearer'' = [''Bearer'']" by code_simp
  then show "get_current_user decode_access_token (Some ''Bearer'') d
         = Inl (HTTPException 401 ''Invalid authorization header'')"
    by (simp add: get_current_user_def)
qed

theorem auth_header_checked_witness:
  "''Basic abc'' \<noteq> []
   \<and> str_lower (str_split_ws ''Basic abc'' ! 0) \<noteq> ''bearer''
   \<and> get_current_user demo_decode (Some ''Basic abc'') demo_db
        = Inl (HTTPException 401 ''Invalid authorization header'')
   \<and> get_current_user demo_decode None demo_db = Inl (HTTPException 401 ''Token missing'')"
proof -
  have h1: "''Basic abc'' \<noteq> []" by simp
  have h2: "str_lower (str_split_ws ''Basic abc'' ! 0) \<noteq> ''bearer''" by code_simp
  note t = auth_header_checked[of demo_decode demo_db "''Basic abc''"]
  from t h1 h2 have c1: "get_current_user demo_decode (Some ''Basic abc'') demo_db
        = Inl (HTTPException 401 ''Invalid authorization header'')" by blast
  from t have c2: "get_current_user demo_decode None demo_db = Inl (HTTPException 401 ''Token missing'')"
    by blast
  from h1 h2 c1 c2 show ?thesis by (intro conjI)
qed

text \<open>The claim as stated fails at the empty header: it is present, it does not split
  into two parts, and the answer is \<^verbatim>\<open>Token missing\<close>, because the source tests
  \<^verbatim>\<open>not authorization\<close>.\<close>

theorem auth_empty_header_counterexample:
  "length (str_split_ws []) \<noteq> 2
   \<and> get_current_user demo_decode (Some []) demo_db = Inl (HTTPException 401 ''Token missing'')
   \<and> get_current_user demo_decode (Some []) demo_db
        \<noteq> Inl (HTTPException 401 ''Invalid authorization header'')"
  by (simp add: get_current_user_def str_split_ws_def)

lemma query_user_first_None:
  "query_user_first d uid = None \<longleftrightarrow> (\<forall>u \<in> set (users d). uid \<noteq> Some (user_id u))"
  by (cases uid) (auto simp: query_user_first_def find_None_iff)

lemma query_user_first_Some:
  assumes "query_user_first d uid = Some u"
  shows "u \<in> set (users d)" "uid = Some (user_id u)"
  using assms by (cases uid; auto simp: query_user_first_def find_Some_iff)+

lemma get_current_user_bearer:
  assumes "str_split_ws h = [scheme, token]" "str_lower scheme = ''bearer''"
  shows "get_current_user dec (Some h) d =
           (case dec token of
              None \<Rightarrow> Inl (HTTPException 401 ''Invalid or expired token'')
            | Some p \<Rightarrow>
                if p = [] then Inl (HTTPException 401 ''Invalid or expired token'')
                else (case query_user_first d (map_of p ''sub'') of
                        None \<Rightarrow> Inl (HTTPException 401 ''User not found'')
                      | Some user \<Rightarrow> Inr user))"
proof -
  have "h \<noteq> []" using assms(1) by (auto simp: str_split_ws_def)
  then show ?thesis by (simp add: get_current_user_def assms)
qed

text \<open>C7. For a header \<^verbatim>\<open>Bearer <token>\<close>: when decoding fails, which the source
  tests as \<^verbatim>\<open>not payload\<close> (the decoder returned \<^verbatim>\<open>None\<close> or no claim at all),
  authentication fails with 401 \<^verbatim>\<open>Invalid or expired token\<close>; when no user has the
  subject claim as id, it fails with 401 \<^verbatim>\<open>User not found\<close>; otherwise it returns a
  stored user whose id is the subject claim, which is the only one when ids are
  distinct.\<close>

theorem auth_token_resolved:
  assumes "str_split_ws h = [scheme, token]" "str_lower scheme = ''bearer''"
  shows "(falsy (decode_access_token token) \<longrightarrow>
            get_current_user decode_access_token (Some h) d
              = Inl (HTTPException 401 ''Invalid or expired token''))
       \<and> (\<forall>p. decode_access_token token = Some p \<and> p \<noteq> []
                \<and> (\<forall>u \<in> set (users d). map_of p ''sub'' \<noteq> Some (user_id u))
              \<longrightarrow> get_current_user decode_access_token (Some h) d
                    = Inl (HTTPException 401 ''User not found''))
       \<and> (\<forall>p u. decode_access_token token = Some p \<and> p \<noteq> []
                \<and> u \<in> set (users d) \<and> map_of p ''sub'' = Some (user_id u)
              \<longrightarrow> (\<exists>u'. get_current_user decode_access_token (Some h) d = Inr u'
                         \<and> u' \<in> set (users d) \<and> user_id u' = user_id u
                         \<and> (distinct (map user_id (users d)) \<longrightarrow> u' = u)))"
proof (intro conjI impI allI)
  assume "falsy (decode_access_token token)"
  then show "get_current_user decode_access_token (Some h) d
              = Inl (HTTPException 401 ''Invalid or expired token'')"
    unfolding get_current_user_bearer[OF assms] by (auto simp: falsy_def)
next
  fix p
  assume a: "decode_access_token token = Some p \<and> p \<noteq> []
                \<and> (\<forall>u \<in> set (users d). map_of p ''sub'' \<noteq> Some (user_id u))"
  then have "query_user_first d (map_of p ''sub'') = None"
    unfolding query_user_first_None by blast
  with a show "get_current_user decode_access_token (Some h) d
                    = Inl (HTTPException 401 ''User not found'')"
    unfolding get_current_user_bearer[OF assms] by simp
next
  fix p u
  assume a: "decode_access_token token = Some p \<and> p \<noteq> []
                \<and> u \<in> set (users d) \<and> map_of p ''sub'' = Some (user_id u)"
  then have "query_user_first d (map_of p ''sub'') \<noteq> None"
    unfolding query_user_first_None by auto
  then obtain u' where q: "query_user_first d (map_of p ''sub'') = Some u'" by auto
  from query_user_first_Some[OF q] a have u': "u' \<in> set (users d)" "user_id u' = user_id u"
    by auto
  have g: "get_current_user decode_access_token (Some h) d = Inr u'"
    unfolding get_current_user_bearer[OF assms] using a q by simp
  have "distinct (map user_id (users d)) \<longrightarrow> u' = u"
    using u' a by (auto simp: distinct_map inj_on_def)
  with g u' show "\<exists>u'. get_current_user decode_access_token (Some h) d = Inr u'
                         \<and> u' \<in> set (users d) \<and> user_id u' = user_id u
                         \<and> (distinct (map user_id (users d)) \<longrightarrow> u' = u)"
    by blast
qed

theorem auth_token_resolved_witness:
  "str_split_ws ''BEARER nope'' = [''BEARER'', ''nope''] \<and> str_lower ''BEARER'' = ''bearer''
   \<and> falsy (demo_decode ''nope'')
   \<and> get_current_user demo_decode (Some ''BEARER nope'') demo_db
        = Inl (HTTPException 401 ''Invalid or expired token'')
   \<and> str_split_ws ''bearer t9'' = [''bearer'', ''t9''] \<and> str_lower ''bearer'' = ''bearer''
   \<and> demo_decode ''t9'' = Some [(''sub'', 9), (''exp'', 2000)]
   \<and> get_current_user demo_decode (Some ''bearer t9'') demo_db
        = Inl (HTTPException 401 ''User not found'')
   \<and> str_split_ws ''Bearer t1'' = [''Bearer'', ''t1''] \<and> str_lower ''Bearer'' = ''bearer''
   \<and> demo_decode ''t1'' = Some [(''sub'', 1), (''exp'', 2000)]
   \<and> get_current_user demo_decode (Some ''Bearer t1'') demo_db = Inr \<lparr>user_id = 1\<rparr>"
proof -
  have s0: "str_split_ws ''BEARER nope'' = [''BEARER'', ''nope'']" by code_simp
  have l0: "str_lower ''BEARER'' = ''bearer''" by code_simp
  have f0: "falsy (demo_decode ''nope'')" by (simp add: falsy_def demo_decode_def)
  from auth_token_resolved[OF s0 l0, of demo_decode demo_db] f0
  have c0: "get_current_user demo_decode (Some ''BEARER nope'') demo_db
        = Inl (HTTPException 401 ''Invalid or expired token'')" by blast
  have s9: "str_split_ws ''bearer t9'' = [''bearer'', ''t9'']" by code_simp
  have l9: "str_lower ''bearer'' = ''bearer''" by code_simp
  have d9: "demo_decode ''t9'' = Some [(''sub'', 9), (''exp'', 2000)]"
    by (simp add: demo_decode_def)
  have n9: "\<forall>u \<in> set (users demo_db). map_of [(''sub'', 9), (''exp'', 2000)] ''sub'' \<noteq> Some (user_id u)"
    by (simp add: demo_db_def)
  from auth_token_resolved[OF s9 l9, of demo_decode demo_db] d9 n9
  have c9: "get_current_user demo_decode (Some ''bearer t9'') demo_db
        = Inl (HTTPException 401 ''User not found'')" by blast
  have s1: "str_split_ws ''Bearer t1'' = [''Bearer'', ''t1'']" by code_simp
  have l1: "str_lower ''Bearer'' = ''bearer''" by code_simp
  have d1: "demo_decode ''t1'' = Some [(''sub'', 1), (''exp'', 2000)]"
    by (simp add: demo_decode_def)
  have m1: "\<lparr>user_id = 1\<rparr> \<in> set (users demo_db)"
    "map_of [(''sub'', 1), (''exp'', 2000)] ''sub'' = Some (user_id \<lparr>user_id = 1\<rparr>)"
    "distinct (map user_id (users demo_db))"
    by (simp_all add: demo_db_def)
  from auth_token_resolved[OF s1 l1, of demo_decode demo_db] d1 m1
  have c1: "get_current_user demo_decode (Some ''Bearer t1'') demo_db = Inr \<lparr>user_id = 1\<rparr>"
    by blast
  from s0 l0 f0 c0 s9 l9 d9 c9 s1 l1 d1 c1 show ?thesis by (intro conjI)
qed


subsection \<open>The routes\<close>





text \<open>C9. The outcome of the model's validation is put together from the outcomes of the
  three field validators, each a function of its own field alone: the payload is accepted
  when all three accept, and otherwise the error lists, field by field, the messages of
  those that did not. When validation fails, by whatever error, the route answers with an
  error and the database is the one it was given: nothing is inserted.\<close>

theorem validation_before_persistence:
  "(float_ok w \<and> float_ok g \<longrightarrow>
      HealthDataRequest_validate w b g =
        (case (validate_weight w, validate_blood_pressure b, validate_glucose g) of
           (Inr w', Inr b', Inr g') \<Rightarrow> Inr \<lparr>weight = w', bp = b', glucose = g'\<rparr>
         | _ \<Rightarrow> Inl (ValidationError
                     (field_errors ''weight'' (validate_weight w)
                        @ field_errors ''bp'' (validate_blood_pressure b)
                        @ field_errors ''glucose'' (validate_glucose g)))))
   \<and> (\<forall>e. HealthDataRequest_validate w b g = Inl e \<longrightarrow>
         (\<exists>e'. post_healthdata decode_access_token new_id now authorization (w, b, g) d
                 = (d, Inl e')))"
proof (intro conjI impI allI)
  assume "float_ok w \<and> float_ok g"
  then show "HealthDataRequest_validate w b g =
        (case (validate_weight w, validate_blood_pressure b, validate_glucose g) of
           (Inr w', Inr b', Inr g') \<Rightarrow> Inr \<lparr>weight = w', bp = b', glucose = g'\<rparr>
         | _ \<Rightarrow> Inl (ValidationError
                     (field_errors ''weight'' (validate_weight w)
                        @ field_errors ''bp'' (validate_blood_pressure b)
                        @ field_errors ''glucose'' (validate_glucose g))))"
    by (intro HealthDataRequest_validate_collects escaping_weight_glucose) auto
next
  fix e assume "HealthDataRequest_validate w b g = Inl e"
  then show "\<exists>e'. post_healthdata decode_access_token new_id now authorization (w, b, g) d
                 = (d, Inl e')"
    by (auto simp: post_healthdata_def split: sum.splits)
qed


lemma float_ok_minus_1: "float_ok (Finite (- 1))"
  using is_double_int[of "- 1"] by simp

theorem validation_before_persistence_witness:
  "float_ok (Finite (- 1)) \<and> float_ok (Finite 5)
   \<and> HealthDataRequest_validate (Finite (- 1)) ''12/80'' (Finite 5)
        = Inl (ValidationError [(''weight'', ''Weight must be a positive number''),
                                (''bp'', ''Systolic pressure must be between 70 and 250'')])
   \<and> (\<exists>e'. post_healthdata demo_decode 4 1004 (Some ''Bearer t1'')
               (Finite (- 1), ''12/80'', Finite 5) demo_db = (demo_db, Inl e'))"
proof -
  note t = validation_before_persistence[of "Finite (- 1)" "Finite 5" "''12/80''"
      demo_decode 4 1004 "Some ''Bearer t1''" demo_db]
  have w: "validate_weight (Finite (- 1)) = Inl (ValueError ''Weight must be a positive number'')"
    by (simp add: validate_weight_def)
  have b: "validate_blood_pressure ''12/80''
             = Inl (ValueError ''Systolic pressure must be between 70 and 250'')"
    by code_simp
  from t float_ok_minus_1 float_ok_5
  have "HealthDataRequest_validate (Finite (- 1)) ''12/80'' (Finite 5) =
        (case (validate_weight (Finite (- 1)), validate_blood_pressure ''12/80'',
               validate_glucose (Finite 5)) of
           (Inr w', Inr b', Inr g') \<Rightarrow> Inr \<lparr>weight = w', bp = b', glucose = g'\<rparr>
         | _ \<Rightarrow> Inl (ValidationError
                     (field_errors ''weight'' (validate_weight (Finite (- 1)))
                        @ field_errors ''bp'' (validate_blood_pressure ''12/80'')
                        @ field_errors ''glucose'' (validate_glucose (Finite 5)))))"
    by blast
  then have c1: "HealthDataRequest_validate (Finite (- 1)) ''12/80'' (Finite 5)
        = Inl (ValidationError [(''weight'', ''Weight must be a positive number''),
                                (''bp'', ''Systolic pressure must be between 70 and 250'')])"
    unfolding w b validate_70_5 by simp
  from t c1
  have c2: "\<exists>e'. post_healthdata demo_decode 4 1004 (Some ''Bearer t1'')
               (Finite (- 1), ''12/80'', Finite 5) demo_db = (demo_db, Inl e')"
    by blast
  from float_ok_minus_1 float_ok_5 c1 c2 show ?thesis by (intro conjI)
qed

end
